theory Spec2Isabelle
  imports Complex_Main
begin

section \<open>The drum machine's event router (apps/drum\_machine.py)\<close>

text \<open>
  The script wires a step sequencer, two MIDI transports, a touch pad and a menu to a
  tuple of eight percussive voices. Its handlers return nothing: what they do is call
  the voices, send MIDI messages and redraw the menu. The model makes those calls the
  value of each handler, as a list of events in the order the source performs them.
  Python integers are \<open>int\<close>; a velocity handed to a voice is a number that may be a
  float or an integer, modelled as \<open>real\<close>, so that \<open>velocity * 127\<close> is the exact
  product and not its nearest float. The voices, the transports' \<open>send\<close> and the message
  classes belong to libraries outside the script: a call is recorded with the arguments
  the script hands over, and \<open>send\<close> is taken to leave the message as it is.
\<close>

subsection \<open>Data\<close>

text \<open>The tuple \<open>voices\<close> of lines 51 to 60, by the class of each entry.\<close>

datatype voice_kind = Kick | Snare | ClosedHat | OpenHat | FloorTom | MidTom | HighTom | Ride

definition voices :: "voice_kind list" where
  "voices = [Kick, Snare, ClosedHat, OpenHat, FloorTom, MidTom, HighTom, Ride]"

text \<open>
  The module \<open>settings\<close> is imported, not defined, by the script; the three attributes
  the handlers read are taken as a parameter. \<open>midi_channel\<close> is \<open>None\<close> or a channel.
\<close>

record settings =
  midi_channel :: "int option"
  midi_thru :: bool
  keyboard_touch :: bool

text \<open>
  MIDI messages as the script sees them: the two note classes with their \<open>note\<close>,
  \<open>velocity\<close> and \<open>channel\<close>, the class \<open>MIDIUnknownEvent\<close> (a raw status byte; it is
  built without a channel), and every other message class, of which only the channel is
  read.
\<close>

datatype msg =
    NoteOn int int "int option"
  | NoteOff int int "int option"
  | MIDIUnknownEvent int
  | OtherMessage "int option"

fun channel :: "msg \<Rightarrow> int option" where
  "channel (NoteOn n v c) = c"
| "channel (NoteOff n v c) = c"
| "channel (MIDIUnknownEvent s) = None"
| "channel (OtherMessage c) = c"

fun is_unknown_event :: "msg \<Rightarrow> bool" where
  "is_unknown_event (MIDIUnknownEvent s) = True"
| "is_unknown_event m = False"

datatype transport = Uart | Usb

datatype event =
    VoicePress int real
  | VoiceRelease int
  | MidiSend transport msg
  | LcdDraw

fun is_voice_call :: "event \<Rightarrow> bool" where
  "is_voice_call (VoicePress i v) = True"
| "is_voice_call (VoiceRelease i) = True"
| "is_voice_call e = False"

fun is_midi_send :: "event \<Rightarrow> bool" where
  "is_midi_send (MidiSend t m) = True"
| "is_midi_send e = False"

definition voice_calls :: "event list \<Rightarrow> event list" where
  "voice_calls es = filter is_voice_call es"

definition midi_sends :: "event list \<Rightarrow> event list" where
  "midi_sends es = filter is_midi_send es"

fun press_velocities :: "event list \<Rightarrow> real list" where
  "press_velocities [] = []"
| "press_velocities (VoicePress i v # es) = v # press_velocities es"
| "press_velocities (e # es) = press_velocities es"


text \<open>Python's \<open>int(x)\<close> on a finite float: truncation towards zero.\<close>

definition py_int :: "real \<Rightarrow> int" where
  "py_int x = (if 0 \<le> x then \<lfloor>x\<rfloor> else \<lceil>x\<rceil>)"

subsection \<open>Sequencer callbacks (lines 72 to 90)\<close>

definition sequencer_press :: "settings \<Rightarrow> int \<Rightarrow> real \<Rightarrow> event list" where
  "sequencer_press st notenum velocity =
     (let msg = NoteOn notenum (py_int (velocity * 127)) (midi_channel st)
      in [VoicePress ((notenum - 1) mod int (length voices)) velocity,
          MidiSend Uart msg,
          MidiSend Usb msg])"

definition sequencer_release :: "int \<Rightarrow> event list" where
  "sequencer_release notenum =
     (let voice = (notenum - 1) mod int (length voices);
          msg = NoteOff notenum 0 None
      in (if voice = 3 then [VoiceRelease (voice + 1)] else [])
         @ [VoiceRelease voice, MidiSend Uart msg, MidiSend Usb msg])"

subsection \<open>MIDI input (lines 94 to 109)\<close>

text \<open>The test of line 99: a channel is configured and the message's differs.\<close>

definition channel_filtered :: "settings \<Rightarrow> msg \<Rightarrow> bool" where
  "channel_filtered st m = (midi_channel st \<noteq> None \<and> channel m \<noteq> midi_channel st)"

fun note_action :: "msg \<Rightarrow> event list" where
  "note_action (NoteOn n v c) =
     (if v > 0 then [VoicePress ((n - 1) mod int (length voices)) (of_int v)]
      else [VoiceRelease ((n - 1) mod int (length voices))])"
| "note_action (NoteOff n v c) = [VoiceRelease ((n - 1) mod int (length voices))]"
| "note_action m = []"

definition midi_process_message :: "settings \<Rightarrow> msg \<Rightarrow> event list" where
  "midi_process_message st m =
     (if midi_thru st \<and> \<not> is_unknown_event m then [MidiSend Usb m, MidiSend Uart m] else [])
     @ (if channel_filtered st m then [] else note_action m)"

subsection \<open>Draining MIDI input (lines 111 to 122)\<close>

text \<open>
  Modelled from the spec: the transport's \<open>receive()\<close> belongs to the MIDI library, which
  is not among the sources; by the spec's interface it is non-blocking, returns the next
  queued message and returns nothing when the queue is empty. The input side of a
  transport is the list of its queued messages.
\<close>

definition receive :: "msg list \<Rightarrow> msg option \<times> msg list" where
  "receive q = (case q of [] \<Rightarrow> (None, []) | m # q' \<Rightarrow> (Some m, q'))"

text \<open>
  The loop \<open>while limit\<close> runs while \<open>limit\<close> is not zero, breaks when \<open>receive\<close>
  returns nothing, and counts \<open>limit\<close> down by one for each message processed. The result
  is the events of the messages processed and the queue left behind.
\<close>

function midi_process_messages ::
  "settings \<Rightarrow> msg list \<Rightarrow> int \<Rightarrow> event list \<times> msg list" where
  "midi_process_messages st q limit =
     (if limit \<noteq> 0 then
        (case receive q of
           (None, q') \<Rightarrow> ([], q')
         | (Some m, q') \<Rightarrow>
             (let (es, q'') = midi_process_messages st q' (limit - 1)
              in (midi_process_message st m @ es, q'')))
      else ([], q))"
  by pat_completeness auto
termination
  by (relation "measure (\<lambda>(st, q, limit). length q)")
     (auto simp add: receive_def split: list.splits)

declare midi_process_messages.simps [simp del]

text \<open>
  One pass of the body of \<open>midi_task\<close>: USB first, then UART, each with the default
  limit of 32. The task itself repeats the pass forever, sleeping in between.
\<close>

definition midi_task_pass ::
  "settings \<Rightarrow> msg list \<Rightarrow> msg list \<Rightarrow> event list \<times> msg list \<times> msg list" where
  "midi_task_pass st usb_in uart_in =
     (let (es1, usb_in') = midi_process_messages st usb_in 32;
          (es2, uart_in') = midi_process_messages st uart_in 32
      in (es1 @ es2, usb_in', uart_in'))"

subsection \<open>Touch (lines 126 to 142)\<close>

text \<open>What Python raises in the handlers below, as values.\<close>

datatype py_error = ZeroDivisionError | IndexError | OutOfRange

text \<open>
  The menu as \<open>ttp_press\<close> reads it. \<open>lcd_menu.selected\<close> is a \<open>Sequence\<close> (a kind of
  group: the values of its step items and its \<open>length\<close>), another \<open>Group\<close> (of which only
  \<open>current_item\<close> is read), or any other item.
\<close>

datatype item =
    Sequence "bool list" nat
  | Group item
  | Item

fun is_sequence :: "item \<Rightarrow> bool" where
  "is_sequence (Sequence items len) = True"
| "is_sequence i = False"

text \<open>Lines 130 to 132: a group that is not a sequence gives way to its current item.\<close>

definition focus :: "item \<Rightarrow> item" where
  "focus selected = (case selected of Group cur \<Rightarrow> cur | _ \<Rightarrow> selected)"

text \<open>The sequence object is mutated in place: the selection afterwards, around it.\<close>

definition refocus :: "item \<Rightarrow> item \<Rightarrow> item" where
  "refocus selected s = (case selected of Group cur \<Rightarrow> Group s | _ \<Rightarrow> s)"

text \<open>
  Lines 136 and 137. \<open>position % length\<close> raises for a length of zero and is never
  negative otherwise; indexing the items past their end raises.
\<close>

definition toggle_step :: "bool list \<Rightarrow> nat \<Rightarrow> int \<Rightarrow> py_error + bool list" where
  "toggle_step items len position =
     (if len = 0 then Inl ZeroDivisionError
      else (let i = nat (position mod int len)
            in if i < length items then Inr (items[i := \<not> items ! i]) else Inl IndexError))"

definition ttp_press :: "settings \<Rightarrow> item \<Rightarrow> int \<Rightarrow> py_error + item \<times> event list" where
  "ttp_press st selected position =
     (if \<not> keyboard_touch st then Inr (selected, [])
      else (case focus selected of
              Sequence items len \<Rightarrow>
                (case toggle_step items len position of
                   Inl e \<Rightarrow> Inl e
                 | Inr items' \<Rightarrow> Inr (refocus selected (Sequence items' len), [LcdDraw]))
            | _ \<Rightarrow> Inr (selected, [])))"

subsection \<open>Grid editor (lines 156 to 173)\<close>

text \<open>
  Modelled from the spec: the class \<open>Sequencer\<close> belongs to the keyboard library, which
  is not among the sources. By the spec's pattern store, a pattern is a grid of tracks by
  steps whose cells hold a note number or nothing; \<open>has_note\<close> fails with \<open>OutOfRange\<close>
  outside the bounds, \<open>set_note\<close> overwrites the cell, \<open>remove_note\<close> empties it and is a
  no-op on an empty cell, and an index out of bounds is rejected with no mutation.
\<close>

record sequencer =
  tracks :: int
  steps_length :: nat
  grid :: "int \<times> nat \<Rightarrow> int option"

definition in_bounds :: "sequencer \<Rightarrow> int \<Rightarrow> nat \<Rightarrow> bool" where
  "in_bounds s track position = (0 \<le> track \<and> track < tracks s \<and> position < steps_length s)"

definition has_note :: "sequencer \<Rightarrow> nat \<Rightarrow> int \<Rightarrow> py_error + bool" where
  "has_note s position track =
     (if in_bounds s track position then Inr (grid s (track, position) \<noteq> None)
      else Inl OutOfRange)"

definition set_note :: "sequencer \<Rightarrow> nat \<Rightarrow> int \<Rightarrow> int \<Rightarrow> py_error + sequencer" where
  "set_note s position notenum track =
     (if in_bounds s track position
      then Inr (s\<lparr>grid := (grid s)((track, position) \<mapsto> notenum)\<rparr>)
      else Inl OutOfRange)"

definition remove_note :: "sequencer \<Rightarrow> nat \<Rightarrow> int \<Rightarrow> py_error + sequencer" where
  "remove_note s position track =
     (if in_bounds s track position
      then Inr (s\<lparr>grid := (grid s)((track, position) := None)\<rparr>)
      else Inl OutOfRange)"

text \<open>The sequencer of lines 65 to 69: sixteen steps, one track for each voice, no note.\<close>

definition sequencer_init :: sequencer where
  "sequencer_init = \<lparr>tracks = int (length voices), steps_length = 16, grid = Map.empty\<rparr>"

text \<open>The calls that change the pattern, with their arguments: position, note, track.\<close>

datatype seq_call = SetNote nat int int | RemoveNote nat int

text \<open>
  The loop of lines 159 to 173 over \<open>enumerate(value)\<close>. \<open>has_note\<close> is asked only for a
  true cell (\<open>and\<close> evaluates its right side only then); a false cell goes to
  \<open>remove_note\<close> without a look at the pattern.
\<close>

fun track_loop ::
  "int \<Rightarrow> (nat \<times> bool) list \<Rightarrow> sequencer \<Rightarrow> py_error + sequencer \<times> seq_call list" where
  "track_loop track [] s = Inr (s, [])"
| "track_loop track ((i, state) # rest) s =
     (if state then
        (case has_note s i track of
           Inl e \<Rightarrow> Inl e
         | Inr True \<Rightarrow> track_loop track rest s
         | Inr False \<Rightarrow>
             (case set_note s i (track + 1) track of
                Inl e \<Rightarrow> Inl e
              | Inr s' \<Rightarrow>
                  (case track_loop track rest s' of
                     Inl e \<Rightarrow> Inl e
                   | Inr (s'', calls) \<Rightarrow> Inr (s'', SetNote i (track + 1) track # calls))))
      else
        (case remove_note s i track of
           Inl e \<Rightarrow> Inl e
         | Inr s' \<Rightarrow>
             (case track_loop track rest s' of
                Inl e \<Rightarrow> Inl e
              | Inr (s'', calls) \<Rightarrow> Inr (s'', RemoveNote i track # calls))))"

definition update_sequencer_track ::
  "sequencer \<Rightarrow> int \<Rightarrow> bool list \<Rightarrow> py_error + sequencer \<times> seq_call list" where
  "update_sequencer_track s track value =
     (if track > tracks s \<or> track < 0 then Inr (s, [])
      else track_loop track (enumerate 0 value) s)"

text \<open>
  Two functions that describe the loop's result, for the proofs below: the calls one cell
  causes, given the pattern before the update, and the pattern after the cells from
  position \<open>k\<close> on have been visited.
\<close>

fun cell_calls :: "(int \<times> nat \<Rightarrow> int option) \<Rightarrow> int \<Rightarrow> nat \<times> bool \<Rightarrow> seq_call list" where
  "cell_calls f track (i, state) =
     (if state then (if f (track, i) = None then [SetNote i (track + 1) track] else [])
      else [RemoveNote i track])"

definition cells_after ::
  "(int \<times> nat \<Rightarrow> int option) \<Rightarrow> int \<Rightarrow> nat \<Rightarrow> bool list \<Rightarrow> int \<times> nat \<Rightarrow> int option" where
  "cells_after f track k xs =
     (\<lambda>(t, i). if t = track \<and> k \<le> i \<and> i < k + length xs
               then (if xs ! (i - k)
                     then (case f (t, i) of None \<Rightarrow> Some (track + 1) | Some n \<Rightarrow> Some n)
                     else None)
               else f (t, i))"

section \<open>Properties of the note handlers\<close>

lemma len_voices: "int (length voices) = 8"
  by (simp add: voices_def)

text \<open>
  By the tuple, index 2 is the closed hat, index 3 the open hat and index 4 the floor
  tom; the comments of lines 82 and 83 name indices 3 and 4 closed hat and open hat.
\<close>

lemma voices_at_2_3_4: "voices ! 2 = ClosedHat \<and> voices ! 3 = OpenHat \<and> voices ! 4 = FloorTom"
  by (simp add: voices_def)


text \<open>
  The sequencer's release callback couples index 3 with index 4 and no other pair: the
  release of index 4 comes first, and every other note releases its own voice only.
\<close>

lemma sequencer_release_choke:
  "voice_calls (sequencer_release n) =
     (if (n - 1) mod 8 = 3 then [VoiceRelease 4, VoiceRelease 3]
      else [VoiceRelease ((n - 1) mod 8)])"
  by (simp add: sequencer_release_def voice_calls_def len_voices Let_def)

text \<open>
  C1. Every release that resolves to track 3, whatever its source, is preceded by a
  release of track 4. The sequencer's callback does so; the MIDI input path does not:
  a Note-Off for note 4, and a Note-On for note 4 with velocity 0, release voice 3 alone.
  The theorem evaluates both paths at note 4.
\<close>

theorem midi_release_of_track_3_has_no_choke:
  "voice_calls (midi_process_message
      \<lparr>midi_channel = None, midi_thru = False, keyboard_touch = True\<rparr> (NoteOff 4 0 (Some 0)))
     = [VoiceRelease 3]
   \<and> voice_calls (midi_process_message
      \<lparr>midi_channel = None, midi_thru = False, keyboard_touch = True\<rparr> (NoteOn 4 0 (Some 0)))
     = [VoiceRelease 3]
   \<and> voice_calls (sequencer_release 4) = [VoiceRelease 4, VoiceRelease 3]"
  by (simp add: midi_process_message_def channel_filtered_def sequencer_release_def
        voice_calls_def len_voices Let_def)










text \<open>
  C9. Every press passes a velocity within 0.0 to 1.0. The sequencer's callback hands
  the voice the velocity it received, on the scale that \<open>int(velocity * 127)\<close> turns
  into a MIDI velocity; the MIDI input path hands the voice the message's velocity as
  it is, on the scale 1 to 127. The theorem evaluates a Note-On of velocity 100, and the
  sequencer's press at full velocity beside it.
\<close>

theorem midi_press_passes_raw_velocity:
  "press_velocities (midi_process_message
      \<lparr>midi_channel = None, midi_thru = False, keyboard_touch = True\<rparr> (NoteOn 1 100 (Some 0)))
     = [100]
   \<and> \<not> ((100::real) \<le> 1)
   \<and> sequencer_press \<lparr>midi_channel = None, midi_thru = False, keyboard_touch = True\<rparr> 1 1 =
       [VoicePress 0 1, MidiSend Uart (NoteOn 1 127 None), MidiSend Usb (NoteOn 1 127 None)]"
  by (simp add: midi_process_message_def channel_filtered_def sequencer_press_def len_voices
        py_int_def Let_def)



section \<open>The bounded drain\<close>

lemma midi_process_messages_take_drop:
  "0 \<le> limit \<Longrightarrow>
   midi_process_messages st q limit =
     (concat (map (midi_process_message st) (take (nat limit) q)), drop (nat limit) q)"
proof (induction q arbitrary: limit)
  case Nil
  then show ?case
    by (simp add: midi_process_messages.simps [of st "[]" limit] receive_def)
next
  case (Cons m q)
  show ?case
  proof (cases "limit = 0")
    case True
    then show ?thesis
      by (simp add: midi_process_messages.simps [of st "m # q" 0])
  next
    case False
    with Cons.prems have pos: "0 \<le> limit - 1" by simp
    have n: "nat limit = Suc (nat (limit - 1))" using False Cons.prems by simp
    show ?thesis
      using False Cons.IH [OF pos]
      by (simp add: midi_process_messages.simps [of st "m # q" limit] receive_def n)
  qed
qed

text \<open>A negative limit never reaches zero: the loop then ends only on an empty queue.\<close>

lemma midi_process_messages_negative:
  "limit < 0 \<Longrightarrow>
   midi_process_messages st q limit = (concat (map (midi_process_message st) q), [])"
proof (induction q arbitrary: limit)
  case Nil
  then show ?case
    by (simp add: midi_process_messages.simps [of st "[]" limit] receive_def)
next
  case (Cons m q)
  from Cons.prems have "limit - 1 < 0" by simp
  from Cons.IH [OF this] Cons.prems show ?case
    by (simp add: midi_process_messages.simps [of st "m # q" limit] receive_def)
qed

text \<open>
  C8. With the limit of 32, one drain of a transport processes the first 32 queued
  messages, in order, and leaves the rest in the queue; a queue of at most 32 messages
  is processed whole, the loop stopping when \<open>receive\<close> returns nothing; one pass of
  the task does so for USB and then for UART, so at most 32 messages for each transport.
\<close>

theorem midi_drain_is_bounded:
  "midi_process_messages st q 32 =
     (concat (map (midi_process_message st) (take 32 q)), drop 32 q)
   \<and> length (take 32 q) \<le> 32
   \<and> (length q \<le> 32 \<longrightarrow>
        midi_process_messages st q 32 = (concat (map (midi_process_message st) q), []))
   \<and> midi_task_pass st usb_in uart_in =
       (concat (map (midi_process_message st) (take 32 usb_in))
          @ concat (map (midi_process_message st) (take 32 uart_in)),
        drop 32 usb_in, drop 32 uart_in)"
  using midi_process_messages_take_drop [of 32 st]
  by (simp add: midi_task_pass_def)

theorem midi_drain_is_bounded_witness:
  "length [NoteOn 1 100 None, NoteOff 1 0 None] \<le> 32
   \<and> midi_process_messages \<lparr>midi_channel = None, midi_thru = False, keyboard_touch = True\<rparr>
        [NoteOn 1 100 None, NoteOff 1 0 None] 32 = ([VoicePress 0 100, VoiceRelease 0], [])
   \<and> snd (midi_process_messages \<lparr>midi_channel = None, midi_thru = False, keyboard_touch = True\<rparr>
        (replicate 33 (NoteOn 1 100 None) @ [NoteOff 2 0 None]) 32)
       = [NoteOn 1 100 None, NoteOff 2 0 None]"
  using midi_drain_is_bounded
          [of "\<lparr>midi_channel = None, midi_thru = False, keyboard_touch = True\<rparr>"
              "[NoteOn 1 100 None, NoteOff 1 0 None]" "[]" "[]"]
        midi_drain_is_bounded
          [of "\<lparr>midi_channel = None, midi_thru = False, keyboard_touch = True\<rparr>"
              "replicate 33 (NoteOn 1 100 None) @ [NoteOff 2 0 None]" "[]" "[]"]
  by (simp add: midi_process_message_def channel_filtered_def len_voices)

section \<open>Touch editing\<close>

text \<open>
  C6, as the claim states it, fails where the touch setting is off: the selection is a
  sequence, yet a press on position 0 toggles nothing.
\<close>

theorem touch_press_without_touch_setting:
  "is_sequence (focus (Sequence [False, False] 2))
   \<and> ttp_press \<lparr>midi_channel = None, midi_thru = False, keyboard_touch = False\<rparr>
        (Sequence [False, False] 2) 0 = Inr (Sequence [False, False] 2, [])"
  by (simp add: ttp_press_def focus_def)

text \<open>
  C6, amended. With the touch setting on and a sequence in focus (the selection itself,
  or the current item of the selected group) whose length is positive and within its
  items, a press on position \<open>p\<close> negates the step at \<open>p mod length\<close>, leaves every
  other step as it was and redraws the menu. With the setting off, or no sequence in
  focus, the press changes nothing. No run of the handler sends a MIDI message or calls
  a voice.
\<close>

theorem touch_press_toggles_one_step:
  "(keyboard_touch st \<and> focus selected = Sequence items len \<and> 0 < len \<and> len \<le> length items \<longrightarrow>
      ttp_press st selected p =
        Inr (refocus selected
               (Sequence (items[nat (p mod int len) := \<not> items ! nat (p mod int len)]) len),
             [LcdDraw])
      \<and> nat (p mod int len) < len)
   \<and> (\<not> keyboard_touch st \<or> \<not> is_sequence (focus selected) \<longrightarrow>
        ttp_press st selected p = Inr (selected, []))
   \<and> (ttp_press st selected p = Inr (selected', es) \<longrightarrow> midi_sends es = [] \<and> voice_calls es = [])"
proof -
  have a: "nat (p mod int len) < len" if "0 < len"
    using that by (simp add: nat_less_iff)
  have b: "ttp_press st selected p = Inr (selected, [])" if "\<not> is_sequence (focus selected)"
    using that by (cases "focus selected") (simp_all add: ttp_press_def)
  have c: "midi_sends es = [] \<and> voice_calls es = []" if "ttp_press st selected p = Inr (selected', es)"
    using that
    by (auto simp add: ttp_press_def midi_sends_def voice_calls_def
          split: if_splits item.splits sum.splits)
  show ?thesis
    using a b c by (auto simp add: ttp_press_def toggle_step_def Let_def)
qed

theorem touch_press_toggles_one_step_witness:
  "keyboard_touch \<lparr>midi_channel = None, midi_thru = False, keyboard_touch = True\<rparr>
   \<and> focus (Group (Sequence [False, True, False, False] 4)) = Sequence [False, True, False, False] 4
   \<and> (0::nat) < 4 \<and> 4 \<le> length [False, True, False, False]
   \<and> ttp_press \<lparr>midi_channel = None, midi_thru = False, keyboard_touch = True\<rparr>
        (Group (Sequence [False, True, False, False] 4)) 6
       = Inr (Group (Sequence [False, True, True, False] 4), [LcdDraw])
   \<and> midi_sends [LcdDraw] = [] \<and> voice_calls [LcdDraw] = []
   \<and> \<not> is_sequence (focus Item)
   \<and> ttp_press \<lparr>midi_channel = None, midi_thru = False, keyboard_touch = True\<rparr> Item 6
       = Inr (Item, [])"
  using touch_press_toggles_one_step
          [of "\<lparr>midi_channel = None, midi_thru = False, keyboard_touch = True\<rparr>"
              "Group (Sequence [False, True, False, False] 4)" "[False, True, False, False]" 4 6
              "Group (Sequence [False, True, True, False] 4)" "[LcdDraw]"]
        touch_press_toggles_one_step
          [of "\<lparr>midi_channel = None, midi_thru = False, keyboard_touch = True\<rparr>" Item "[]" 0 6
              Item "[]"]
  by (simp add: focus_def refocus_def)

section \<open>The grid editor's calls\<close>

lemma cell_calls_cong:
  "(\<And>i. k \<le> i \<Longrightarrow> f (track, i) = g (track, i)) \<Longrightarrow>
   concat (map (cell_calls f track) (enumerate k xs)) =
   concat (map (cell_calls g track) (enumerate k xs))"
  by (induction xs arbitrary: k) simp_all

lemma cells_after_Cons:
  "cells_after
      (f((track, k) :=
           (if x then (case f (track, k) of None \<Rightarrow> Some (track + 1) | Some n \<Rightarrow> Some n)
            else None)))
      track (Suc k) xs
   = cells_after f track k (x # xs)"
  by (rule ext) (auto simp add: cells_after_def nth_Cons' split: option.splits)

lemma track_loop_result:
  assumes "0 \<le> track" "track < tracks s" "k + length xs \<le> steps_length s"
  shows "track_loop track (enumerate k xs) s =
           Inr (s\<lparr>grid := cells_after (grid s) track k xs\<rparr>,
                concat (map (cell_calls (grid s) track) (enumerate k xs)))"
  using assms
proof (induction xs arbitrary: k s)
  case Nil
  have "cells_after (grid s) track k [] = grid s"
    by (rule ext) (auto simp add: cells_after_def)
  then show ?case by simp
next
  case (Cons x xs)
  let ?v = "if x then (case grid s (track, k) of None \<Rightarrow> Some (track + 1) | Some n \<Rightarrow> Some n)
            else None"
  let ?s1 = "s\<lparr>grid := (grid s)((track, k) := ?v)\<rparr>"
  have inb: "in_bounds s track k"
    using Cons.prems by (simp add: in_bounds_def)
  have prem1: "track < tracks ?s1" "Suc k + length xs \<le> steps_length ?s1"
    using Cons.prems by simp_all
  have ih: "track_loop track (enumerate (Suc k) xs) ?s1 =
      Inr (?s1\<lparr>grid := cells_after (grid ?s1) track (Suc k) xs\<rparr>,
           concat (map (cell_calls (grid ?s1) track) (enumerate (Suc k) xs)))"
    using Cons.IH [OF Cons.prems(1) prem1] .
  have calls: "concat (map (cell_calls (grid ?s1) track) (enumerate (Suc k) xs)) =
               concat (map (cell_calls (grid s) track) (enumerate (Suc k) xs))"
    by (rule cell_calls_cong) simp
  have after: "cells_after (grid ?s1) track (Suc k) xs = cells_after (grid s) track k (x # xs)"
    using cells_after_Cons [of "grid s" track k x xs] by simp
  show ?case
  proof (cases x)
    case False
    then show ?thesis
      using ih inb calls after by (simp add: remove_note_def)
  next
    case True
    show ?thesis
    proof (cases "grid s (track, k)")
      case None
      then show ?thesis
        using True ih inb calls after by (simp add: has_note_def set_note_def)
    next
      case (Some n)
      then have "?s1 = s" using True by (simp add: fun_upd_idem)
      then show ?thesis
        using True Some ih inb calls after by (simp add: has_note_def)
    qed
  qed
qed

text \<open>
  The guard of line 157 lets the track equal to the number of tracks through; the first
  cell then meets the pattern's bounds.
\<close>

lemma update_sequencer_track_guard:
  "update_sequencer_track s (tracks s + 1) value = Inr (s, [])
   \<and> update_sequencer_track s (- 1) value = Inr (s, [])
   \<and> (0 \<le> tracks s \<longrightarrow> update_sequencer_track s (tracks s) (x # xs) = Inl OutOfRange)"
  by (simp add: update_sequencer_track_def has_note_def remove_note_def in_bounds_def)

text \<open>
  C7, as the claim states it, fails on a cell that is false before and after: on the
  empty pattern, an update of track 0 with the vector \<open>(False,)\<close> still issues a remove
  call for cell 0.
\<close>

theorem grid_update_calls_remove_on_unchanged_cell:
  "has_note sequencer_init 0 0 = Inr False
   \<and> map_sum id snd (update_sequencer_track sequencer_init 0 [False]) = Inr [RemoveNote 0 0]"
  by (simp add: update_sequencer_track_def has_note_def remove_note_def in_bounds_def
        sequencer_init_def len_voices)

text \<open>
  C7, amended. For a track within the pattern and a vector no longer than the pattern,
  the update visits the cells in order: a true cell that holds no note receives
  \<open>set_note\<close> with the note \<open>track + 1\<close>; a true cell that holds a note receives no call
  and keeps its note; every false cell receives \<open>remove_note\<close>, whether it held a note
  or not. Afterwards the track's cells under the vector hold a note exactly where the
  vector is true, and every other cell of the pattern is as before.
\<close>

theorem grid_update_calls:
  assumes "0 \<le> track" "track < tracks s" "length value \<le> steps_length s"
  shows "\<exists>s'. update_sequencer_track s track value =
           Inr (s', concat (map (\<lambda>(i, state).
                      if state
                      then (if grid s (track, i) = None then [SetNote i (track + 1) track] else [])
                      else [RemoveNote i track]) (enumerate 0 value)))
         \<and> (\<forall>i < length value. grid s' (track, i) =
               (if value ! i
                then (case grid s (track, i) of None \<Rightarrow> Some (track + 1) | Some n \<Rightarrow> Some n)
                else None))
         \<and> (\<forall>t i. t \<noteq> track \<or> length value \<le> i \<longrightarrow> grid s' (t, i) = grid s (t, i))
         \<and> tracks s' = tracks s \<and> steps_length s' = steps_length s"
proof -
  have loop: "update_sequencer_track s track value =
      Inr (s\<lparr>grid := cells_after (grid s) track 0 value\<rparr>,
           concat (map (cell_calls (grid s) track) (enumerate 0 value)))"
    using assms track_loop_result [of track s 0 "value"]
    by (simp add: update_sequencer_track_def)
  have f: "cell_calls (grid s) track = (\<lambda>(i, state).
                      if state
                      then (if grid s (track, i) = None then [SetNote i (track + 1) track] else [])
                      else [RemoveNote i track])"
    by (rule ext) (simp split: prod.splits)
  show ?thesis
    unfolding loop f
    by (rule exI [of _ "s\<lparr>grid := cells_after (grid s) track 0 value\<rparr>"])
       (auto simp add: cells_after_def)
qed

theorem grid_update_calls_witness:
  "(0::int) \<le> 2
   \<and> 2 < tracks \<lparr>tracks = 8, steps_length = 4, grid = (\<lambda>c. None)((2, 1) \<mapsto> 3)\<rparr>
   \<and> length [True, True, False, False]
        \<le> steps_length \<lparr>tracks = 8, steps_length = 4, grid = (\<lambda>c. None)((2, 1) \<mapsto> 3)\<rparr>
   \<and> (\<exists>s'. update_sequencer_track
               \<lparr>tracks = 8, steps_length = 4, grid = (\<lambda>c. None)((2, 1) \<mapsto> 3)\<rparr>
               2 [True, True, False, False]
             = Inr (s', [SetNote 0 3 2, RemoveNote 2 2, RemoveNote 3 2])
           \<and> map (\<lambda>i. grid s' (2, i)) [0, 1, 2, 3] = [Some 3, Some 3, None, None])"
  using grid_update_calls
          [of 2 "\<lparr>tracks = 8, steps_length = 4, grid = (\<lambda>c. None)((2, 1) \<mapsto> 3)\<rparr>"
              "[True, True, False, False]"]
  by (auto simp add: enumerate_eq_zip)

end
